theory Spec2Isabelle
  imports Main "HOL-Library.AList" "HOL-Library.Char_ord" "HOL-Library.List_Lexorder"
begin

section \<open>Data model\<close>

text \<open>
  The module \<^verbatim>\<open>main_module.py\<close> keeps a registry of connections in a Python dict and
  writes every change through to three SQLite tables. The embedding keeps that shape:
  the two dataclasses are records, the three tables are lists of row records in rowid
  order together with their AUTOINCREMENT counters, and the dict \<^verbatim>\<open>_pool\<close> is an
  association list in insertion order (a Python dict iterates in insertion order, an
  assignment to an existing key keeps its place, \<^verbatim>\<open>del\<close> removes the entry).

  Values the code draws from its environment are arguments of the model: the readings of
  \<^verbatim>\<open>datetime.utcnow()\<close>, SQLite's \<^verbatim>\<open>datetime('now')\<close>, the results of
  \<^verbatim>\<open>uuid.uuid4()\<close>, and the library functions \<^verbatim>\<open>json.dumps\<close>, \<^verbatim>\<open>json.loads\<close> and
  \<^verbatim>\<open>datetime.fromisoformat\<close>.
\<close>

datatype json =
    JNull
  | JBool bool
  | JInt int
  | JStr string
  | JList "json list"
  | JDict "(string \<times> json) list"

datatype py_error = ValueError | AttributeError | TypeError | OverflowError | IntegrityError

text \<open>The dataclass \<^verbatim>\<open>Connection\<close>.\<close>

record connection =
  ws_id :: string
  agent :: string
  metadata :: "(string \<times> json) list"
  connected_at :: string
  last_heartbeat :: string
  status :: string
  message_count :: int
  db_id :: "int option"

text \<open>The dataclass \<^verbatim>\<open>Message\<close> (its \<^verbatim>\<open>db_id\<close> is \<open>db_id_m\<close> here).\<close>

record message =
  content :: string
  sender_id :: "string option"
  recipient_id :: "string option"
  msg_type :: string
  msg_id :: string
  sent_at :: string
  db_id_m :: "int option"

text \<open>Rows of the tables \<^verbatim>\<open>connections\<close>, \<^verbatim>\<open>messages\<close> and \<^verbatim>\<open>heartbeat_log\<close>.\<close>

record connections_row =
  col_id :: int
  col_ws_id :: string
  col_agent :: string
  col_metadata :: string
  col_connected_at :: string
  col_last_heartbeat :: string
  col_status :: string
  col_message_count :: int
  col_disconnected_at :: "string option"

record messages_row =
  m_id :: int
  m_msg_id :: string
  m_msg_type :: string
  m_sender_id :: "string option"
  m_recipient_id :: "string option"
  m_content :: string
  m_sent_at :: string
  m_delivered :: int

record heartbeat_log_row =
  h_id :: int
  h_ws_id :: string
  h_ts :: string
  h_latency_ms :: "int option"

text \<open>
  The database behind a \<^verbatim>\<open>sqlite3.Connection\<close>. Each table is held in rowid order; the
  \<open>_seq\<close> fields are the AUTOINCREMENT counters (the largest rowid ever handed out).
  Commits are not modelled: every statement of the program runs on the one connection and
  sees the statements before it.
\<close>

record db =
  connections :: "connections_row list"
  connections_seq :: int
  messages :: "messages_row list"
  messages_seq :: int
  heartbeat_log :: "heartbeat_log_row list"
  heartbeat_log_seq :: int

text \<open>
  The class \<^verbatim>\<open>ConnectionPool\<close>: the database \<^verbatim>\<open>_conn\<close> it is backed by, and the dict
  \<^verbatim>\<open>_pool\<close>. The module's functions that take both \<^verbatim>\<open>pool\<close> and \<^verbatim>\<open>db_conn\<close> are always
  called with \<^verbatim>\<open>db_conn\<close> being the pool's own connection (\<^verbatim>\<open>main\<close>, the tests), and
  are modelled so.
\<close>

record connection_pool = db +
  pool :: "(string \<times> connection) list"

text \<open>
  What one construction of a \<^verbatim>\<open>Message\<close> followed by its INSERT reads from the
  environment.
\<close>

record draws =
  uuid4 :: string
  utcnow_iso :: string
  sql_now :: string

text \<open>
  A \<^verbatim>\<open>datetime\<close>: naive (microseconds since 0001-01-01T00:00:00) or carrying a UTC
  offset. \<^verbatim>\<open>datetime.utcnow()\<close> is naive.
\<close>

datatype pydatetime = Naive int | Aware int

record heartbeat_result =
  active :: "string list"
  timed_out :: "string list"


section \<open>Schema and construction\<close>

text \<open>\<^verbatim>\<open>get_db\<close> on a path that holds no database yet: the three tables, empty.\<close>

definition get_db :: db where
  "get_db = \<lparr>connections = [], connections_seq = 0, messages = [], messages_seq = 0,
             heartbeat_log = [], heartbeat_log_seq = 0\<rparr>"

definition row_to_connection :: "(string \<Rightarrow> (string \<times> json) list) \<Rightarrow> connections_row \<Rightarrow> connection" where
  "row_to_connection loads row =
     \<lparr>ws_id = col_ws_id row, agent = col_agent row, metadata = loads (col_metadata row),
      connected_at = col_connected_at row, last_heartbeat = col_last_heartbeat row,
      status = col_status row, message_count = col_message_count row,
      db_id = Some (col_id row)\<rparr>"

definition load_active :: "(string \<Rightarrow> (string \<times> json) list) \<Rightarrow> db \<Rightarrow> (string \<times> connection) list" where
  "load_active loads conn =
     foldl (\<lambda>p row. let c = row_to_connection loads row in AList.update (ws_id c) c p) []
       (filter (\<lambda>row. col_status row = ''active'') (connections conn))"

definition init :: "(string \<Rightarrow> (string \<times> json) list) \<Rightarrow> db \<Rightarrow> connection_pool" where
  "init loads conn = db.extend conn \<lparr>pool = load_active loads conn\<rparr>"

section \<open>The registry: methods of ConnectionPool\<close>

text \<open>
  \<^verbatim>\<open>INSERT OR REPLACE INTO connections(ws_id, ...)\<close>: the column \<^verbatim>\<open>ws_id\<close> is UNIQUE, and
  the REPLACE conflict resolution deletes the row that holds the same \<^verbatim>\<open>ws_id\<close> before it
  inserts. The new row takes the next AUTOINCREMENT rowid; \<^verbatim>\<open>disconnected_at\<close> is not
  among the inserted columns and has no default, so it is NULL.
\<close>

definition insert_or_replace_connection :: "(json \<Rightarrow> string) \<Rightarrow> 'a db_scheme \<Rightarrow> connection \<Rightarrow> int \<times> 'a db_scheme" where
  "insert_or_replace_connection dumps d connection =
     (let rowid = connections_seq d + 1;
          row = \<lparr>col_id = rowid, col_ws_id = ws_id connection, col_agent = agent connection,
                 col_metadata = dumps (JDict (metadata connection)),
                 col_connected_at = connected_at connection,
                 col_last_heartbeat = last_heartbeat connection,
                 col_status = status connection,
                 col_message_count = message_count connection,
                 col_disconnected_at = None\<rparr>
      in (rowid,
          d\<lparr>connections := filter (\<lambda>r. col_ws_id r \<noteq> ws_id connection) (connections d) @ [row],
            connections_seq := rowid\<rparr>))"

definition add :: "(json \<Rightarrow> string) \<Rightarrow> connection_pool \<Rightarrow> connection \<Rightarrow> connection \<times> connection_pool" where
  "add dumps s connection =
     (case insert_or_replace_connection dumps s connection of
        (lastrowid, s') \<Rightarrow>
          (let connection' = connection\<lparr>db_id := Some lastrowid\<rparr>
           in (connection', s'\<lparr>pool := AList.update (ws_id connection') connection' (pool s')\<rparr>)))"

text \<open>
  \<^verbatim>\<open>remove\<close>. The third argument is the value of SQLite's \<^verbatim>\<open>datetime('now')\<close> when the
  UPDATE runs.
\<close>

definition remove :: "connection_pool \<Rightarrow> string \<Rightarrow> string \<Rightarrow> bool \<times> connection_pool" where
  "remove s ws now_sql =
     (if ws \<notin> fst ` set (pool s) then (False, s)
      else (True,
            s\<lparr>connections :=
                 map (\<lambda>r. if col_ws_id r = ws
                           then r\<lparr>col_status := ''disconnected'', col_disconnected_at := Some now_sql\<rparr>
                           else r) (connections s),
              pool := AList.delete ws (pool s)\<rparr>))"

definition get :: "connection_pool \<Rightarrow> string \<Rightarrow> connection option" where
  "get s ws = map_of (pool s) ws"

definition get_all :: "connection_pool \<Rightarrow> connection list" where
  "get_all s = map snd (pool s)"

definition count :: "connection_pool \<Rightarrow> nat" where
  "count s = length (pool s)"

text \<open>
  An assignment to an attribute of the object \<^verbatim>\<open>self._pool[ws_id]\<close>: the entry under the
  key is looked up and replaced by the changed object, in place.
\<close>

definition modify :: "string \<Rightarrow> (connection \<Rightarrow> connection) \<Rightarrow> (string \<times> connection) list \<Rightarrow> (string \<times> connection) list" where
  "modify ws f p = (case map_of p ws of None \<Rightarrow> p | Some c \<Rightarrow> AList.update ws (f c) p)"

text \<open>
  \<^verbatim>\<open>update_heartbeat\<close>. \<open>ts\<close> is \<^verbatim>\<open>datetime.utcnow().isoformat()\<close>, \<open>now_sql\<close> the
  default \<^verbatim>\<open>datetime('now')\<close> of the column \<^verbatim>\<open>heartbeat_log.ts\<close>.
\<close>

definition update_heartbeat :: "connection_pool \<Rightarrow> string \<Rightarrow> int option \<Rightarrow> string \<Rightarrow> string \<Rightarrow> bool \<times> connection_pool" where
  "update_heartbeat s ws latency_ms ts now_sql =
     (if ws \<notin> fst ` set (pool s) then (False, s)
      else (True,
            s\<lparr>pool := modify ws (\<lambda>c. c\<lparr>last_heartbeat := ts\<rparr>) (pool s),
              connections :=
                 map (\<lambda>r. if col_ws_id r = ws then r\<lparr>col_last_heartbeat := ts\<rparr> else r)
                   (connections s),
              heartbeat_log := heartbeat_log s @
                 [\<lparr>h_id = heartbeat_log_seq s + 1, h_ws_id = ws, h_ts = now_sql,
                   h_latency_ms = latency_ms\<rparr>],
              heartbeat_log_seq := heartbeat_log_seq s + 1\<rparr>))"

definition increment_message_count :: "connection_pool \<Rightarrow> string \<Rightarrow> connection_pool" where
  "increment_message_count s ws =
     (if ws \<in> fst ` set (pool s)
      then s\<lparr>pool := modify ws (\<lambda>c. c\<lparr>message_count := message_count c + 1\<rparr>) (pool s),
             connections :=
               map (\<lambda>r. if col_ws_id r = ws
                         then r\<lparr>col_message_count := col_message_count r + 1\<rparr> else r)
                 (connections s)\<rparr>
      else s)"

section \<open>Module functions\<close>

text \<open>
  \<^verbatim>\<open>add_connection\<close>. The two timestamps are the two readings of
  \<^verbatim>\<open>datetime.utcnow().isoformat()\<close> that the default factories of \<^verbatim>\<open>connected_at\<close> and
  \<^verbatim>\<open>last_heartbeat\<close> take; \<^verbatim>\<open>metadata or {}\<close> turns a missing dict into the empty one.
\<close>

definition add_connection :: "(json \<Rightarrow> string) \<Rightarrow> connection_pool \<Rightarrow> string \<Rightarrow> string \<Rightarrow> (string \<times> json) list option \<Rightarrow> string \<Rightarrow> string \<Rightarrow> connection \<times> connection_pool" where
  "add_connection dumps s ws ag md ts_connected ts_heartbeat =
     (let conn_obj = \<lparr>ws_id = ws, agent = ag,
                       metadata = (case md of None \<Rightarrow> [] | Some m \<Rightarrow> m),
                       connected_at = ts_connected, last_heartbeat = ts_heartbeat,
                       status = ''active'', message_count = 0, db_id = None\<rparr>
      in add dumps s conn_obj)"

definition remove_connection :: "connection_pool \<Rightarrow> string \<Rightarrow> string \<Rightarrow> bool \<times> connection_pool" where
  "remove_connection s ws now_sql = remove s ws now_sql"

text \<open>
  \<^verbatim>\<open>INSERT INTO messages(msg_id, msg_type, sender_id, recipient_id, content, delivered)
  VALUES(?,?,?,?,?,1)\<close>. The column \<^verbatim>\<open>msg_id\<close> is UNIQUE: a value already in the table
  raises \<^verbatim>\<open>sqlite3.IntegrityError\<close> and inserts nothing. \<^verbatim>\<open>sent_at\<close> is not among the
  inserted columns and takes its default \<^verbatim>\<open>datetime('now')\<close>.
\<close>

definition insert_message :: "'a db_scheme \<Rightarrow> message \<Rightarrow> string \<Rightarrow> (py_error + unit) \<times> 'a db_scheme" where
  "insert_message d msg now_sql =
     (if msg_id msg \<in> m_msg_id ` set (messages d) then (Inl IntegrityError, d)
      else (Inr (),
            d\<lparr>messages := messages d @
                 [\<lparr>m_id = messages_seq d + 1, m_msg_id = msg_id msg, m_msg_type = msg_type msg,
                   m_sender_id = sender_id msg, m_recipient_id = recipient_id msg,
                   m_content = content msg, m_sent_at = now_sql, m_delivered = 1\<rparr>],
              messages_seq := messages_seq d + 1\<rparr>))"

text \<open>
  \<^verbatim>\<open>json.dumps(message) if not isinstance(message, str) else message\<close>.
\<close>

definition content_str :: "(json \<Rightarrow> string) \<Rightarrow> json \<Rightarrow> string" where
  "content_str dumps message = (case message of JStr s \<Rightarrow> s | _ \<Rightarrow> dumps message)"

text \<open>
  The loop of \<^verbatim>\<open>broadcast\<close> over \<^verbatim>\<open>targets\<close>. \<open>env i\<close> is what the \<open>i\<close>-th iteration
  draws. An exception leaves the loop with the state reached so far.
\<close>

fun broadcast_loop :: "(nat \<Rightarrow> draws) \<Rightarrow> nat \<Rightarrow> string \<Rightarrow> string \<Rightarrow> string option \<Rightarrow> connection list \<Rightarrow> string list \<Rightarrow> connection_pool \<Rightarrow> (py_error + string list) \<times> connection_pool" where
  "broadcast_loop env i cs mt sender [] delivered_to s = (Inr delivered_to, s)"
| "broadcast_loop env i cs mt sender (conn_obj # targets) delivered_to s =
     (let msg = \<lparr>content = cs, sender_id = sender, recipient_id = Some (ws_id conn_obj),
                  msg_type = mt, msg_id = uuid4 (env i), sent_at = utcnow_iso (env i),
                  db_id_m = None\<rparr>
      in case insert_message s msg (sql_now (env i)) of
           (Inl e, s') \<Rightarrow> (Inl e, s')
         | (Inr _, s') \<Rightarrow>
             broadcast_loop env (Suc i) cs mt sender targets (delivered_to @ [ws_id conn_obj])
               (increment_message_count s' (ws_id conn_obj)))"

definition broadcast :: "(json \<Rightarrow> string) \<Rightarrow> connection_pool \<Rightarrow> json \<Rightarrow> (connection \<Rightarrow> bool) option \<Rightarrow> string \<Rightarrow> string option \<Rightarrow> (nat \<Rightarrow> draws) \<Rightarrow> (py_error + string list) \<times> connection_pool" where
  "broadcast dumps s message filter_fn mt sender env =
     (let targets = (case filter_fn of None \<Rightarrow> get_all s | Some f \<Rightarrow> filter f (get_all s))
      in broadcast_loop env 0 (content_str dumps message) mt sender targets [] s)"

definition get_active_connections :: "connection_pool \<Rightarrow> connection list" where
  "get_active_connections s = filter (\<lambda>c. status c = ''active'') (get_all s)"

text \<open>
  \<^verbatim>\<open>timedelta(seconds=timeout)\<close> raises OverflowError beyond 999999999 days;
  subtracting it from a datetime raises OverflowError when the result leaves the years
  1 to 9999. Times are in microseconds.
\<close>

definition datetime_max :: int where
  "datetime_max = 3652059 * 86400 * 1000000 - 1"

definition timedelta_seconds :: "int \<Rightarrow> py_error + int" where
  "timedelta_seconds timeout =
     (if timeout div 86400 < - 999999999 \<or> 999999999 < timeout div 86400 then Inl OverflowError
      else Inr (timeout * 1000000))"

definition datetime_sub :: "int \<Rightarrow> int \<Rightarrow> py_error + int" where
  "datetime_sub t delta =
     (if t - delta < 0 \<or> datetime_max < t - delta then Inl OverflowError else Inr (t - delta))"

text \<open>
  The \<^verbatim>\<open>try\<close> block of \<^verbatim>\<open>heartbeat_check\<close>: a ValueError or AttributeError of the parser
  is replaced by \<^verbatim>\<open>now\<close>, any other exception passes.
\<close>

definition parse_last_hb :: "(string \<Rightarrow> py_error + pydatetime) \<Rightarrow> int \<Rightarrow> connection \<Rightarrow> py_error + pydatetime" where
  "parse_last_hb fromisoformat now conn_obj =
     (case fromisoformat (last_heartbeat conn_obj) of
        Inr d \<Rightarrow> Inr d
      | Inl e \<Rightarrow> if e = ValueError \<or> e = AttributeError then Inr (Naive now) else Inl e)"

text \<open>
  \<^verbatim>\<open>last_hb < cutoff\<close>, where \<^verbatim>\<open>cutoff\<close> is naive: comparing a datetime that carries an
  offset with it raises TypeError.
\<close>

definition datetime_lt :: "pydatetime \<Rightarrow> int \<Rightarrow> py_error + bool" where
  "datetime_lt d cutoff = (case d of Naive t \<Rightarrow> Inr (t < cutoff) | Aware _ \<Rightarrow> Inl TypeError)"

text \<open>
  The loop of \<^verbatim>\<open>heartbeat_check\<close> over the snapshot \<^verbatim>\<open>list(pool.get_all())\<close>.
  \<open>clock i\<close> is SQLite's \<^verbatim>\<open>datetime('now')\<close> during the \<open>i\<close>-th iteration.
\<close>

fun heartbeat_loop :: "(string \<Rightarrow> py_error + pydatetime) \<Rightarrow> int \<Rightarrow> int \<Rightarrow> (nat \<Rightarrow> string) \<Rightarrow> nat \<Rightarrow> connection list \<Rightarrow> string list \<Rightarrow> string list \<Rightarrow> connection_pool \<Rightarrow> (py_error + heartbeat_result) \<times> connection_pool" where
  "heartbeat_loop fromisoformat now cutoff clock i [] act tout s =
     (Inr \<lparr>active = act, timed_out = tout\<rparr>, s)"
| "heartbeat_loop fromisoformat now cutoff clock i (conn_obj # rest) act tout s =
     (case parse_last_hb fromisoformat now conn_obj of
        Inl e \<Rightarrow> (Inl e, s)
      | Inr last_hb \<Rightarrow>
          (case datetime_lt last_hb cutoff of
             Inl e \<Rightarrow> (Inl e, s)
           | Inr True \<Rightarrow>
               heartbeat_loop fromisoformat now cutoff clock (Suc i) rest act
                 (tout @ [ws_id conn_obj]) (snd (remove s (ws_id conn_obj) (clock i)))
           | Inr False \<Rightarrow>
               heartbeat_loop fromisoformat now cutoff clock (Suc i) rest
                 (act @ [ws_id conn_obj]) tout s))"

definition heartbeat_check :: "(string \<Rightarrow> py_error + pydatetime) \<Rightarrow> connection_pool \<Rightarrow> int \<Rightarrow> int \<Rightarrow> (nat \<Rightarrow> string) \<Rightarrow> (py_error + heartbeat_result) \<times> connection_pool" where
  "heartbeat_check fromisoformat s timeout now clock =
     (case timedelta_seconds timeout of
        Inl e \<Rightarrow> (Inl e, s)
      | Inr delta \<Rightarrow>
          (case datetime_sub now delta of
             Inl e \<Rightarrow> (Inl e, s)
           | Inr cutoff \<Rightarrow> heartbeat_loop fromisoformat now cutoff clock 0 (get_all s) [] [] s))"

definition send_message :: "(json \<Rightarrow> string) \<Rightarrow> connection_pool \<Rightarrow> string \<Rightarrow> json \<Rightarrow> string \<Rightarrow> string option \<Rightarrow> draws \<Rightarrow> (py_error + message option) \<times> connection_pool" where
  "send_message dumps s ws msg_content mt sender env =
     (case get s ws of
        None \<Rightarrow> (Inr None, s)
      | Some conn_obj \<Rightarrow>
          (let msg = \<lparr>content = content_str dumps msg_content, sender_id = sender,
                       recipient_id = Some ws, msg_type = mt, msg_id = uuid4 env,
                       sent_at = utcnow_iso env, db_id_m = None\<rparr>
           in case insert_message s msg (sql_now env) of
                (Inl e, s') \<Rightarrow> (Inl e, s')
              | (Inr _, s') \<Rightarrow> (Inr (Some msg), increment_message_count s' ws)))"

text \<open>
  \<^verbatim>\<open>ORDER BY sent_at DESC\<close> compares the stored texts; rows with the same \<^verbatim>\<open>sent_at\<close>
  come in an order SQL leaves open, here the later rowid first (a backward scan of the
  index on \<^verbatim>\<open>sent_at\<close>). \<^verbatim>\<open>LIMIT ?\<close> with a negative value is no limit.
\<close>

definition order_by_sent_at_desc :: "messages_row list \<Rightarrow> messages_row list" where
  "order_by_sent_at_desc rows = rev (sort_key m_sent_at rows)"





section \<open>Registry invariant and fixtures\<close>

text \<open>
  What the dict \<^verbatim>\<open>_pool\<close> guarantees by construction: one entry per key, and every
  method stores a connection under its own \<^verbatim>\<open>ws_id\<close>.
\<close>

definition pool_inv :: "connection_pool \<Rightarrow> bool" where
  "pool_inv s \<longleftrightarrow> distinct (map fst (pool s)) \<and> list_all (\<lambda>(k, c). ws_id c = k) (pool s)"

text \<open>
  The fixtures of \<^verbatim>\<open>tests/test_module.py\<close>: \<^verbatim>\<open>tmp_db\<close> is a database on a fresh path,
  \<^verbatim>\<open>pool\<close> the registry built on it. \<open>dumps_stub\<close> and \<open>loads_stub\<close> stand in for the
  JSON functions where an example needs some.
\<close>

definition dumps_stub :: "json \<Rightarrow> string" where
  "dumps_stub j = ''{}''"

definition loads_stub :: "string \<Rightarrow> (string \<times> json) list" where
  "loads_stub t = []"

definition tmp_db :: db where
  "tmp_db = get_db"

definition test_pool :: connection_pool where
  "test_pool = init loads_stub tmp_db"

section \<open>Sequences of registry calls\<close>

text \<open>
  A caller of the registry: the four methods of \<^verbatim>\<open>ConnectionPool\<close> that change it, and a
  sequence of such calls run from left to right.
\<close>

datatype pool_call =
    Add connection
  | Remove string string
  | UpdateHeartbeat string "int option" string string
  | IncrementMessageCount string

fun call :: "(json \<Rightarrow> string) \<Rightarrow> connection_pool \<Rightarrow> pool_call \<Rightarrow> connection_pool" where
  "call dumps s (Add c) = snd (add dumps s c)"
| "call dumps s (Remove ws now_sql) = snd (remove s ws now_sql)"
| "call dumps s (UpdateHeartbeat ws latency_ms ts now_sql) =
     snd (update_heartbeat s ws latency_ms ts now_sql)"
| "call dumps s (IncrementMessageCount ws) = increment_message_count s ws"



section \<open>Notions used to state the properties\<close>

text \<open>
  What the \<^verbatim>\<open>try\<close> block and the comparison \<^verbatim>\<open>last_hb < cutoff\<close> of
  \<^verbatim>\<open>heartbeat_check\<close> decide for one connection: \<open>comparable\<close> when they raise nothing,
  \<open>stale\<close> when the comparison is true.
\<close>

definition stale :: "(string \<Rightarrow> py_error + pydatetime) \<Rightarrow> int \<Rightarrow> int \<Rightarrow> connection \<Rightarrow> bool" where
  "stale fromisoformat now cutoff c =
     (case parse_last_hb fromisoformat now c of Inr (Naive t) \<Rightarrow> t < cutoff | _ \<Rightarrow> False)"

definition comparable :: "(string \<Rightarrow> py_error + pydatetime) \<Rightarrow> int \<Rightarrow> connection \<Rightarrow> bool" where
  "comparable fromisoformat now c =
     (case parse_last_hb fromisoformat now c of Inr (Naive t) \<Rightarrow> True | _ \<Rightarrow> False)"



text \<open>
  More fixtures: a parser that knows two timestamps (their values are the microseconds
  from 0001-01-01 to 2020-01-01 and to 2026-01-01) and rejects everything else, a clock,
  the registry of \<^verbatim>\<open>test_heartbeat_check_timeout\<close> and \<^verbatim>\<open>test_heartbeat_check_active\<close>
  with one stale and one live connection, and a registry whose only connection has a
  heartbeat that is no timestamp.
\<close>

definition fromisoformat_stub :: "string \<Rightarrow> py_error + pydatetime" where
  "fromisoformat_stub t =
     (if t = ''2020-01-01T00:00:00'' then Inr (Naive 63713433600000000)
      else if t = ''2026-01-01T00:00:00'' then Inr (Naive 63902822400000000)
      else Inl ValueError)"

definition clock_stub :: "nat \<Rightarrow> string" where
  "clock_stub i = ''2026-01-01 00:00:10''"


definition garbled :: connection_pool where
  "garbled =
     snd (add_connection dumps_stub test_pool ''ws-bad'' ''agent'' None
            ''2026-01-01T00:00:00'' ''not-a-timestamp'')"

text \<open>
  Whether \<^verbatim>\<open>broadcast\<close> keeps a connection among its targets: every connection without a
  filter, those the predicate accepts with one.
\<close>

definition selects :: "(connection \<Rightarrow> bool) option \<Rightarrow> connection \<Rightarrow> bool" where
  "selects filter_fn c = (case filter_fn of None \<Rightarrow> True | Some f \<Rightarrow> f c)"

text \<open>
  The \<open>n\<close> values that \<^verbatim>\<open>uuid.uuid4()\<close> returns from the \<open>i\<close>-th draw on are new: none is
  among the message ids in use, and none repeats an earlier one.
\<close>

fun fresh_ids :: "(nat \<Rightarrow> draws) \<Rightarrow> nat \<Rightarrow> nat \<Rightarrow> string set \<Rightarrow> bool" where
  "fresh_ids env i 0 used \<longleftrightarrow> True"
| "fresh_ids env i (Suc n) used \<longleftrightarrow>
     uuid4 (env i) \<notin> used \<and> fresh_ids env (Suc i) n (insert (uuid4 (env i)) used)"

text \<open>
  The rows that the loop of \<^verbatim>\<open>broadcast\<close> is expected to insert for a list of targets,
  the first under rowid \<open>seq + 1\<close> with the \<open>i\<close>-th draw.
\<close>

fun rows_of_broadcast :: "(nat \<Rightarrow> draws) \<Rightarrow> nat \<Rightarrow> int \<Rightarrow> string \<Rightarrow> string \<Rightarrow> string option \<Rightarrow> connection list \<Rightarrow> messages_row list" where
  "rows_of_broadcast env i seq cs mt sender [] = []"
| "rows_of_broadcast env i seq cs mt sender (c # targets) =
     \<lparr>m_id = seq + 1, m_msg_id = uuid4 (env i), m_msg_type = mt, m_sender_id = sender,
      m_recipient_id = Some (ws_id c), m_content = cs, m_sent_at = sql_now (env i),
      m_delivered = 1\<rparr> # rows_of_broadcast env (Suc i) (seq + 1) cs mt sender targets"

text \<open>
  Fixtures for \<^verbatim>\<open>test_broadcast_with_filter\<close>: draws with pairwise different ids, and
  the registry with two connections of alice and one of octavia.
\<close>

definition env_stub :: "nat \<Rightarrow> draws" where
  "env_stub i = \<lparr>uuid4 = replicate (Suc i) CHR ''u'', utcnow_iso = ''2026-01-01T00:00:20'',
                 sql_now = ''2026-01-01 00:00:20''\<rparr>"

definition filter_pool :: connection_pool where
  "filter_pool =
     snd (add_connection dumps_stub
       (snd (add_connection dumps_stub
          (snd (add_connection dumps_stub test_pool ''ws-f1'' ''alice'' None
                  ''2026-01-01T00:00:01'' ''2026-01-01T00:00:01''))
          ''ws-f2'' ''alice'' None ''2026-01-01T00:00:02'' ''2026-01-01T00:00:02''))
       ''ws-f3'' ''octavia'' None ''2026-01-01T00:00:03'' ''2026-01-01T00:00:03'')"





text \<open>The registry invariant, as a property of the association list itself.\<close>

definition entries_ok :: "(string \<times> connection) list \<Rightarrow> bool" where
  "entries_ok p \<longleftrightarrow> distinct (map fst p) \<and> list_all (\<lambda>(k, c). ws_id c = k) p"

section \<open>Basic facts about the registry\<close>

lemma test_pool_eq:
  "test_pool = \<lparr>connections = [], connections_seq = 0, messages = [], messages_seq = 0,
                 heartbeat_log = [], heartbeat_log_seq = 0, pool = []\<rparr>"
  by (simp add: test_pool_def init_def tmp_db_def get_db_def load_active_def db.extend_def)

lemma get_None_iff: "get s ws = None \<longleftrightarrow> ws \<notin> fst ` set (pool s)"
  by (simp add: get_def map_of_eq_None_iff)




lemma remove_absent: "get s ws = None \<Longrightarrow> remove s ws t = (False, s)"
  by (simp add: remove_def get_None_iff)

lemma get_after_remove: "get (snd (remove s ws t)) ws = None"
  by (simp add: remove_def get_def map_of_eq_None_iff AList.delete_notin_dom)

lemma remove_absent_repeat:
  "get s ws = None \<Longrightarrow> foldl (\<lambda>s' t'. snd (remove s' ws t')) s ts = s"
  by (induction ts) (simp_all add: remove_absent)

section \<open>C4: send to an absent id\<close>

text \<open>
  Claim C4. For every \<open>ws\<close> that has no entry in the registry, \<open>send_message\<close> returns
  \<^verbatim>\<open>None\<close> (here \<open>Inr None\<close>: no exception, no message) and the state after the call is the
  state before it: no row is added to \<^verbatim>\<open>messages\<close>, and no \<^verbatim>\<open>message_count\<close>, in the
  registry or in the table \<^verbatim>\<open>connections\<close>, changes.
\<close>

theorem send_message_absent:
  assumes "get s ws = None"
  shows "send_message dumps s ws msg_content mt sender env = (Inr None, s)"
  using assms by (simp add: send_message_def)

theorem send_message_absent_witness:
  "send_message dumps_stub test_pool ''no-such-ws'' (JStr ''test'') ''data'' None
     \<lparr>uuid4 = ''u1'', utcnow_iso = ''2026-01-01T00:00:00'', sql_now = ''2026-01-01 00:00:00''\<rparr>
   = (Inr None, test_pool)"
proof -
  have h: "get test_pool ''no-such-ws'' = None"
    by (simp add: get_def test_pool_eq)
  show ?thesis
    using send_message_absent [OF h] by simp
qed

section \<open>C7: remove of an absent id\<close>

text \<open>
  Claim C7. For every \<open>ws\<close> that is not in the registry, because it was never added or
  because a \<open>remove\<close> has just taken it out, \<open>remove\<close> returns \<^verbatim>\<open>False\<close> and leaves the
  registry and the database as they were; any number of further calls, whatever the clock
  shows, do the same. \<open>remove\<close> has no exception to raise: on this path it only tests the
  key and returns.
\<close>

theorem remove_absent_fails_without_effect:
  assumes "get s ws = None \<or> (\<exists>s0 t0. s = snd (remove s0 ws t0))"
  shows "remove s ws t = (False, s) \<and> foldl (\<lambda>s' t'. snd (remove s' ws t')) s ts = s"
proof -
  from assms have "get s ws = None"
    by (auto simp: get_after_remove)
  then show ?thesis
    by (simp add: remove_absent remove_absent_repeat)
qed

theorem remove_absent_fails_without_effect_witness:
  "remove test_pool ''ghost-ws'' ''2026-01-01 00:00:00'' = (False, test_pool) \<and>
   foldl (\<lambda>s' t'. snd (remove s' ''ghost-ws'' t')) test_pool
     [''2026-01-01 00:00:01'', ''2026-01-01 00:00:02''] = test_pool"
proof -
  have h: "get test_pool ''ghost-ws'' = None \<or>
           (\<exists>s0 t0. test_pool = snd (remove s0 ''ghost-ws'' t0))"
    by (simp add: get_def test_pool_eq)
  show ?thesis
    using remove_absent_fails_without_effect [OF h] by simp
qed

section \<open>C10: what update_heartbeat changes\<close>



section \<open>C6: get after add\<close>

lemma add_result:
  "add dumps s c =
     (c\<lparr>db_id := Some (connections_seq s + 1)\<rparr>,
      s\<lparr>connections := filter (\<lambda>r. col_ws_id r \<noteq> ws_id c) (connections s) @
           [\<lparr>col_id = connections_seq s + 1, col_ws_id = ws_id c, col_agent = agent c,
             col_metadata = dumps (JDict (metadata c)), col_connected_at = connected_at c,
             col_last_heartbeat = last_heartbeat c, col_status = status c,
             col_message_count = message_count c, col_disconnected_at = None\<rparr>],
        connections_seq := connections_seq s + 1,
        pool := AList.update (ws_id c) (c\<lparr>db_id := Some (connections_seq s + 1)\<rparr>) (pool s)\<rparr>)"
  by (simp add: add_def insert_or_replace_connection_def Let_def)



lemma get_remove_other: "k \<noteq> ws \<Longrightarrow> get (snd (remove s ws t)) k = get s k"
  by (simp add: remove_def get_def AList.delete_conv')








section \<open>The heartbeat sweep\<close>

lemma pool_remove: "pool (snd (remove s ws t)) = AList.delete ws (pool s)"
  by (simp add: remove_def)

lemma heartbeat_loop_stale:
  assumes "comparable P now c" and "stale P now cutoff c"
  shows "heartbeat_loop P now cutoff clock i (c # rest) act tout s =
           heartbeat_loop P now cutoff clock (Suc i) rest act (tout @ [ws_id c])
             (snd (remove s (ws_id c) (clock i)))"
  using assms
  by (auto simp: comparable_def stale_def datetime_lt_def split: sum.splits pydatetime.splits)

lemma heartbeat_loop_fresh:
  assumes "comparable P now c" and "\<not> stale P now cutoff c"
  shows "heartbeat_loop P now cutoff clock i (c # rest) act tout s =
           heartbeat_loop P now cutoff clock (Suc i) rest (act @ [ws_id c]) tout s"
  using assms
  by (auto simp: comparable_def stale_def datetime_lt_def split: sum.splits pydatetime.splits)

lemma heartbeat_loop_raises:
  assumes "\<not> comparable P now c"
  shows "\<exists>e. heartbeat_loop P now cutoff clock i (c # rest) act tout s = (Inl e, s) \<and>
             e \<noteq> ValueError \<and> e \<noteq> AttributeError"
  using assms
  by (auto simp: comparable_def datetime_lt_def parse_last_hb_def
           split: sum.splits pydatetime.splits if_splits)

lemma delete_then_filter:
  "filter (\<lambda>(k, v). k \<notin> set ks) (AList.delete ws p) = filter (\<lambda>(k, v). k \<notin> set (ws # ks)) p"
  by (induction p) (auto simp: AList.delete_eq)

lemma heartbeat_loop_returns:
  assumes "heartbeat_loop P now cutoff clock i cs act tout s = (Inr r, s')"
  shows "active r = act @ map ws_id (filter (\<lambda>c. \<not> stale P now cutoff c) cs) \<and>
         timed_out r = tout @ map ws_id (filter (stale P now cutoff) cs) \<and>
         pool s' = filter (\<lambda>(k, v). k \<notin> set (map ws_id (filter (stale P now cutoff) cs))) (pool s)"
  using assms
proof (induction cs arbitrary: i act tout s)
  case Nil
  then show ?case by auto
next
  case (Cons c cs)
  show ?case
  proof (cases "comparable P now c")
    case False
    from heartbeat_loop_raises [OF False] Cons.prems show ?thesis
      by (metis Pair_inject sum.distinct(1))
  next
    case True
    show ?thesis
    proof (cases "stale P now cutoff c")
      case st: True
      from Cons.prems have
        "heartbeat_loop P now cutoff clock (Suc i) cs act (tout @ [ws_id c])
           (snd (remove s (ws_id c) (clock i))) = (Inr r, s')"
        by (simp only: heartbeat_loop_stale [OF True st])
      from Cons.IH [OF this] have
        a: "active r = act @ map ws_id (filter (\<lambda>c. \<not> stale P now cutoff c) cs)" and
        t: "timed_out r = (tout @ [ws_id c]) @ map ws_id (filter (stale P now cutoff) cs)" and
        p: "pool s' = filter (\<lambda>(k, v). k \<notin> set (map ws_id (filter (stale P now cutoff) cs)))
                        (pool (snd (remove s (ws_id c) (clock i))))"
        by blast+
      have stale_ids: "map ws_id (filter (stale P now cutoff) (c # cs)) =
                         ws_id c # map ws_id (filter (stale P now cutoff) cs)"
        using st by simp
      have "pool s' = filter (\<lambda>(k, v). k \<notin> set (map ws_id (filter (stale P now cutoff) (c # cs))))
                        (pool s)"
        by (simp only: p pool_remove delete_then_filter stale_ids)
      with a t st show ?thesis
        by simp
    next
      case st: False
      from Cons.prems have
        "heartbeat_loop P now cutoff clock (Suc i) cs (act @ [ws_id c]) tout s = (Inr r, s')"
        by (simp only: heartbeat_loop_fresh [OF True st])
      from Cons.IH [OF this] st show ?thesis
        by simp
    qed
  qed
qed


lemma heartbeat_loop_no_parse_error:
  "fst (heartbeat_loop P now cutoff clock i cs act tout s) \<noteq> Inl ValueError \<and>
   fst (heartbeat_loop P now cutoff clock i cs act tout s) \<noteq> Inl AttributeError"
proof (induction cs arbitrary: i act tout s)
  case Nil
  then show ?case by simp
next
  case (Cons c cs)
  show ?case
  proof (cases "comparable P now c")
    case False
    from heartbeat_loop_raises [OF False] show ?thesis
      by (metis fst_conv sum.inject(1))
  next
    case True
    show ?thesis
    proof (cases "stale P now cutoff c")
      case st: True
      show ?thesis
        by (simp only: heartbeat_loop_stale [OF True st]) (rule Cons.IH)
    next
      case st: False
      show ?thesis
        by (simp only: heartbeat_loop_fresh [OF True st]) (rule Cons.IH)
    qed
  qed
qed

lemma heartbeat_loop_keeps:
  assumes "\<forall>c\<in>set cs. ws_id c = ws \<longrightarrow> \<not> stale P now cutoff c"
  shows "get (snd (heartbeat_loop P now cutoff clock i cs act tout s)) ws = get s ws"
  using assms
proof (induction cs arbitrary: i act tout s)
  case Nil
  then show ?case by simp
next
  case (Cons c cs)
  then have rest: "\<forall>c\<in>set cs. ws_id c = ws \<longrightarrow> \<not> stale P now cutoff c"
    by simp
  show ?case
  proof (cases "comparable P now c")
    case False
    from heartbeat_loop_raises [OF False] show ?thesis
      by (metis snd_conv)
  next
    case True
    show ?thesis
    proof (cases "stale P now cutoff c")
      case st: True
      with Cons.prems have "ws \<noteq> ws_id c" by auto
      then show ?thesis
        by (simp only: heartbeat_loop_stale [OF True st] Cons.IH [OF rest])
           (simp add: get_remove_other)
    next
      case st: False
      show ?thesis
        by (simp only: heartbeat_loop_fresh [OF True st]) (rule Cons.IH [OF rest])
    qed
  qed
qed

section \<open>Rows of the table connections under disconnects\<close>








section \<open>Consequences of the registry invariant\<close>

lemma cutoff_eq:
  assumes "timedelta_seconds timeout = Inr delta" and "datetime_sub now delta = Inr cutoff"
  shows "cutoff = now - timeout * 1000000"
  using assms by (auto simp: timedelta_seconds_def datetime_sub_def split: if_splits)

lemma pool_inv_get:
  assumes "pool_inv s" and "get s k = Some c"
  shows "c \<in> set (get_all s) \<and> ws_id c = k"
proof -
  from assms(2) have "(k, c) \<in> set (pool s)"
    by (simp add: get_def map_of_SomeD)
  with assms(1) show ?thesis
    by (force simp: pool_inv_def get_all_def list_all_iff)
qed

lemma pool_inv_ids:
  assumes "pool_inv s"
  shows "map ws_id (get_all s) = map fst (pool s)"
  using assms by (auto simp: pool_inv_def get_all_def list_all_iff)

lemma pool_inv_get_all:
  assumes "pool_inv s" and "c \<in> set (get_all s)"
  shows "get s (ws_id c) = Some c"
proof -
  from assms(2) obtain k where kc: "(k, c) \<in> set (pool s)"
    by (auto simp: get_all_def)
  with assms(1) have "ws_id c = k"
    by (auto simp: pool_inv_def list_all_iff)
  with kc assms(1) show ?thesis
    by (simp add: get_def pool_inv_def)
qed

lemma pool_inv_unique:
  assumes "pool_inv s" and "c \<in> set (get_all s)" and "c' \<in> set (get_all s)"
    and "ws_id c = ws_id c'"
  shows "c = c'"
proof -
  have "Some c = get s (ws_id c)"
    by (simp only: pool_inv_get_all [OF assms(1,2)])
  also have "\<dots> = get s (ws_id c')"
    by (simp only: assms(4))
  also have "\<dots> = Some c'"
    by (rule pool_inv_get_all [OF assms(1,3)])
  finally show ?thesis
    by (simp only: option.inject)
qed



section \<open>The fixtures, evaluated\<close>


lemma garbled_eq:
  "garbled =
     \<lparr>connections =
        [\<lparr>col_id = 1, col_ws_id = ''ws-bad'', col_agent = ''agent'',
          col_metadata = ''{}'', col_connected_at = ''2026-01-01T00:00:00'',
          col_last_heartbeat = ''not-a-timestamp'', col_status = ''active'',
          col_message_count = 0, col_disconnected_at = None\<rparr>],
      connections_seq = 1, messages = [], messages_seq = 0,
      heartbeat_log = [], heartbeat_log_seq = 0,
      pool =
        [(''ws-bad'',
          \<lparr>ws_id = ''ws-bad'', agent = ''agent'', metadata = [],
           connected_at = ''2026-01-01T00:00:00'', last_heartbeat = ''not-a-timestamp'',
           status = ''active'', message_count = 0, db_id = Some 1\<rparr>)]\<rparr>"
  by (simp add: garbled_def add_connection_def add_result test_pool_eq dumps_stub_def)

section \<open>C3: classification by the heartbeat sweep\<close>

lemma stale_iff:
  "parse_last_hb P now c = Inr (Naive t) \<Longrightarrow> stale P now cutoff c \<longleftrightarrow> t < cutoff"
  by (simp add: stale_def)


lemma classified_fresh:
  assumes inv: "pool_inv s" and g: "get s k = Some c" and st: "\<not> stale P now cutoff c"
  shows "k \<in> set (map ws_id (filter (\<lambda>c. \<not> stale P now cutoff c) (get_all s))) \<and>
         k \<notin> set (map ws_id (filter (stale P now cutoff) (get_all s)))"
proof -
  from pool_inv_get [OF inv g] have c: "c \<in> set (get_all s)" and k: "ws_id c = k"
    by simp_all
  have uniq: "c' = c" if "c' \<in> set (get_all s)" and "ws_id c' = k" for c'
  proof -
    from that(2) k have "ws_id c' = ws_id c"
      by (simp only:)
    from pool_inv_unique [OF inv that(1) c this] show ?thesis .
  qed
  have "k \<in> ws_id ` {x \<in> set (get_all s). \<not> stale P now cutoff x}"
    using c k st by blast
  moreover have "k \<notin> ws_id ` {x \<in> set (get_all s). stale P now cutoff x}"
    using uniq st by blast
  ultimately show ?thesis
    by simp
qed



section \<open>C5: a heartbeat that does not parse\<close>

text \<open>
  Claim C5, amended to timeouts that are not negative. Let the registry satisfy its
  invariant and let the \<open>last_heartbeat\<close> of the connection \<open>c\<close> under \<open>ws\<close> raise
  ValueError (or AttributeError) in the parser. Then the sweep takes \<open>now\<close> for its
  heartbeat, and for every timeout \<open>0 \<le> T\<close>: \<open>c\<close> is still in the registry afterwards,
  whatever else the sweep did; the sweep raises neither ValueError nor AttributeError; and
  when it returns its lists, \<open>ws\<close> is in the active list and not in the timed-out list.
\<close>

theorem malformed_heartbeat_fails_open:
  assumes inv: "pool_inv s"
    and g: "get s ws = Some c"
    and bad: "fromisoformat (last_heartbeat c) = Inl ValueError \<or>
              fromisoformat (last_heartbeat c) = Inl AttributeError"
    and nonneg: "0 \<le> timeout"
  shows "parse_last_hb fromisoformat now c = Inr (Naive now) \<and>
         get (snd (heartbeat_check fromisoformat s timeout now clock)) ws = Some c \<and>
         fst (heartbeat_check fromisoformat s timeout now clock) \<noteq> Inl ValueError \<and>
         fst (heartbeat_check fromisoformat s timeout now clock) \<noteq> Inl AttributeError \<and>
         (\<forall>r. fst (heartbeat_check fromisoformat s timeout now clock) = Inr r \<longrightarrow>
            ws \<in> set (active r) \<and> ws \<notin> set (timed_out r))"
proof -
  from bad have p: "parse_last_hb fromisoformat now c = Inr (Naive now)"
    by (auto simp: parse_last_hb_def)
  show ?thesis
  proof (cases "timedelta_seconds timeout")
    case (Inl e)
    then have "e = OverflowError"
      by (auto simp: timedelta_seconds_def split: if_splits)
    with Inl p g show ?thesis
      by (simp add: heartbeat_check_def)
  next
    case (Inr delta)
    show ?thesis
    proof (cases "datetime_sub now delta")
      case (Inl e)
      then have "e = OverflowError"
        by (auto simp: datetime_sub_def split: if_splits)
      with Inl Inr p g show ?thesis
        by (simp add: heartbeat_check_def)
    next
      case cut: (Inr cutoff)
      let ?loop = "heartbeat_loop fromisoformat now cutoff clock 0 (get_all s) [] [] s"
      have check: "heartbeat_check fromisoformat s timeout now clock = ?loop"
        by (simp add: heartbeat_check_def Inr cut)
      from cutoff_eq [OF Inr cut] nonneg have "cutoff \<le> now"
        by simp
      with p have st: "\<not> stale fromisoformat now cutoff c"
        by (simp add: stale_iff)
      from pool_inv_get [OF inv g] have cin: "c \<in> set (get_all s)" and k: "ws_id c = ws"
        by simp_all
      have "\<not> stale fromisoformat now cutoff c'"
        if "c' \<in> set (get_all s)" and "ws_id c' = ws" for c'
      proof -
        from that(2) k have "ws_id c' = ws_id c"
          by (simp only:)
        from pool_inv_unique [OF inv that(1) cin this] st show ?thesis
          by simp
      qed
      then have "\<forall>c'\<in>set (get_all s). ws_id c' = ws \<longrightarrow> \<not> stale fromisoformat now cutoff c'"
        by blast
      from heartbeat_loop_keeps [OF this] g have keep: "get (snd ?loop) ws = Some c"
        by simp
      have "ws \<in> set (active r) \<and> ws \<notin> set (timed_out r)" if "fst ?loop = Inr r" for r
      proof -
        from that have "?loop = (Inr r, snd ?loop)"
          by (metis prod.collapse)
        from heartbeat_loop_returns [OF this] classified_fresh [OF inv g st] show ?thesis
          by simp
      qed
      with p keep heartbeat_loop_no_parse_error [of fromisoformat now cutoff clock 0 "get_all s" "[]" "[]" s]
      show ?thesis
        unfolding check by blast
    qed
  qed
qed

theorem malformed_heartbeat_fails_open_witness:
  "get (snd (heartbeat_check fromisoformat_stub garbled 30 63902822410000000 clock_stub))
     ''ws-bad'' = get garbled ''ws-bad'' \<and>
   fst (heartbeat_check fromisoformat_stub garbled 30 63902822410000000 clock_stub)
     \<noteq> Inl ValueError"
proof -
  let ?bad = "\<lparr>ws_id = ''ws-bad'', agent = ''agent'', metadata = [],
           connected_at = ''2026-01-01T00:00:00'', last_heartbeat = ''not-a-timestamp'',
           status = ''active'', message_count = 0, db_id = Some 1\<rparr>"
  have inv: "pool_inv garbled"
    by (simp add: pool_inv_def garbled_eq)
  have g: "get garbled ''ws-bad'' = Some ?bad"
    by (simp add: get_def garbled_eq)
  have bad: "fromisoformat_stub (last_heartbeat ?bad) = Inl ValueError \<or>
             fromisoformat_stub (last_heartbeat ?bad) = Inl AttributeError"
    by (simp add: fromisoformat_stub_def)
  have nonneg: "(0::int) \<le> 30"
    by simp
  from malformed_heartbeat_fails_open
         [where fromisoformat = fromisoformat_stub and now = 63902822410000000
            and clock = clock_stub, OF inv g bad nonneg] g
  show ?thesis
    by simp
qed

text \<open>
  Claim C5 as stated, for every timeout, fails at \<open>T = -1\<close>: the cutoff is then one second
  after \<open>now\<close>, the heartbeat taken as \<open>now\<close> is older than the cutoff, and the connection is
  removed and reported as timed out.
\<close>

theorem malformed_heartbeat_negative_timeout_counterexample:
  "fromisoformat_stub ''not-a-timestamp'' = Inl ValueError \<and>
   map (last_heartbeat \<circ> snd) (pool garbled) = [''not-a-timestamp''] \<and>
   fst (heartbeat_check fromisoformat_stub garbled (- 1) 63902822410000000 clock_stub)
     = Inr \<lparr>active = [], timed_out = [''ws-bad'']\<rparr> \<and>
   get (snd (heartbeat_check fromisoformat_stub garbled (- 1) 63902822410000000 clock_stub))
     ''ws-bad'' = None"
  by (simp add: garbled_eq heartbeat_check_def timedelta_seconds_def datetime_sub_def
        datetime_max_def get_all_def parse_last_hb_def fromisoformat_stub_def datetime_lt_def
        remove_def get_def)

section \<open>C1: what disconnect and reconnect do to the stored rows\<close>

lemma add_connection_result:
  "add_connection dumps s ws ag md ts_connected ts_heartbeat =
     (\<lparr>ws_id = ws, agent = ag, metadata = (case md of None \<Rightarrow> [] | Some m \<Rightarrow> m),
       connected_at = ts_connected, last_heartbeat = ts_heartbeat, status = ''active'',
       message_count = 0, db_id = Some (connections_seq s + 1)\<rparr>,
      s\<lparr>connections := filter (\<lambda>r. col_ws_id r \<noteq> ws) (connections s) @
           [\<lparr>col_id = connections_seq s + 1, col_ws_id = ws, col_agent = ag,
             col_metadata = dumps (JDict (case md of None \<Rightarrow> [] | Some m \<Rightarrow> m)),
             col_connected_at = ts_connected, col_last_heartbeat = ts_heartbeat,
             col_status = ''active'', col_message_count = 0, col_disconnected_at = None\<rparr>],
        connections_seq := connections_seq s + 1,
        pool := AList.update ws
          \<lparr>ws_id = ws, agent = ag, metadata = (case md of None \<Rightarrow> [] | Some m \<Rightarrow> m),
           connected_at = ts_connected, last_heartbeat = ts_heartbeat, status = ''active'',
           message_count = 0, db_id = Some (connections_seq s + 1)\<rparr> (pool s)\<rparr>)"
  by (simp add: add_connection_def add_result)




section \<open>C9: connection_stats\<close>




section \<open>C2: broadcast\<close>

lemma update_map:
  assumes "distinct (map fst p)" and "map_of p ws = Some c"
  shows "AList.update ws (f c) p = map (\<lambda>(k, v). if k = ws then (k, f v) else (k, v)) p"
  using assms
proof (induction p)
  case Nil
  then show ?case by simp
next
  case (Cons a p)
  obtain k v where a: "a = (k, v)" by (cases a)
  show ?case
  proof (cases "k = ws")
    case True
    with Cons.prems a have "v = c" and "ws \<notin> fst ` set p"
      by auto
    then have "map (\<lambda>(k, v). if k = ws then (k, f v) else (k, v)) p = p"
      by (induction p) auto
    with True a \<open>v = c\<close> show ?thesis
      by simp
  next
    case False
    with Cons a show ?thesis
      by simp
  qed
qed

lemma modify_map:
  assumes "distinct (map fst p)" and "ws \<in> fst ` set p"
  shows "modify ws f p = map (\<lambda>(k, v). if k = ws then (k, f v) else (k, v)) p"
proof -
  from assms(2) obtain c where c: "map_of p ws = Some c"
    by (metis map_of_eq_None_iff not_Some_eq)
  then show ?thesis
    by (simp add: modify_def update_map [OF assms(1) c])
qed

lemma increment_message_count_present:
  assumes "distinct (map fst (pool s))" and "ws \<in> fst ` set (pool s)"
  shows "increment_message_count s ws =
           s\<lparr>pool := map (\<lambda>(k, v). if k = ws then (k, v\<lparr>message_count := message_count v + 1\<rparr>)
                                else (k, v)) (pool s),
             connections := map (\<lambda>r. if col_ws_id r = ws
                                      then r\<lparr>col_message_count := col_message_count r + 1\<rparr>
                                      else r) (connections s)\<rparr>"
  using assms by (simp add: increment_message_count_def modify_map)

lemma insert_message_fresh:
  assumes "msg_id msg \<notin> m_msg_id ` set (messages d)"
  shows "insert_message d msg now_sql =
           (Inr (),
            d\<lparr>messages := messages d @
                 [\<lparr>m_id = messages_seq d + 1, m_msg_id = msg_id msg, m_msg_type = msg_type msg,
                   m_sender_id = sender_id msg, m_recipient_id = recipient_id msg,
                   m_content = content msg, m_sent_at = now_sql, m_delivered = 1\<rparr>],
              messages_seq := messages_seq d + 1\<rparr>)"
  using assms by (simp add: insert_message_def)

lemma keys_map_value:
  "map fst (map (\<lambda>(k, v). if P k then (k, g v) else (k, v)) p) = map fst p"
  by (induction p) auto

lemma broadcast_loop_result:
  assumes "distinct (map ws_id targets)"
    and "\<forall>c\<in>set targets. ws_id c \<in> fst ` set (pool s)"
    and "distinct (map fst (pool s))"
    and "fresh_ids env i (length targets) (m_msg_id ` set (messages s))"
  shows "broadcast_loop env i cs mt sender targets delivered_to s =
           (Inr (delivered_to @ map ws_id targets),
            s\<lparr>pool := map (\<lambda>(k, v). if k \<in> set (map ws_id targets)
                                     then (k, v\<lparr>message_count := message_count v + 1\<rparr>)
                                     else (k, v)) (pool s),
              connections := map (\<lambda>r. if col_ws_id r \<in> set (map ws_id targets)
                                       then r\<lparr>col_message_count := col_message_count r + 1\<rparr>
                                       else r) (connections s),
              messages := messages s @ rows_of_broadcast env i (messages_seq s) cs mt sender targets,
              messages_seq := messages_seq s + int (length targets)\<rparr>)"
  using assms
proof (induction targets arbitrary: i delivered_to s)
  case Nil
  then show ?case by simp
next
  case (Cons c targets)
  let ?row = "\<lparr>m_id = messages_seq s + 1, m_msg_id = uuid4 (env i), m_msg_type = mt,
               m_sender_id = sender, m_recipient_id = Some (ws_id c), m_content = cs,
               m_sent_at = sql_now (env i), m_delivered = 1\<rparr>"
  let ?s1 = "s\<lparr>messages := messages s @ [?row], messages_seq := messages_seq s + 1\<rparr>"
  let ?s2 = "?s1\<lparr>pool := map (\<lambda>(k, v). if k = ws_id c
                                   then (k, v\<lparr>message_count := message_count v + 1\<rparr>)
                                   else (k, v)) (pool s),
                 connections := map (\<lambda>r. if col_ws_id r = ws_id c
                                          then r\<lparr>col_message_count := col_message_count r + 1\<rparr>
                                          else r) (connections s)\<rparr>"
  from Cons.prems(4) have fresh: "uuid4 (env i) \<notin> m_msg_id ` set (messages s)"
    and fresh': "fresh_ids env (Suc i) (length targets)
                   (insert (uuid4 (env i)) (m_msg_id ` set (messages s)))"
    by simp_all
  have ins: "insert_message s
               \<lparr>content = cs, sender_id = sender, recipient_id = Some (ws_id c), msg_type = mt,
                msg_id = uuid4 (env i), sent_at = utcnow_iso (env i), db_id_m = None\<rparr>
               (sql_now (env i)) = (Inr (), ?s1)"
    using fresh by (simp add: insert_message_fresh)
  from Cons.prems have inc: "increment_message_count ?s1 (ws_id c) = ?s2"
    by (simp add: increment_message_count_present)
  have step: "broadcast_loop env i cs mt sender (c # targets) delivered_to s =
                broadcast_loop env (Suc i) cs mt sender targets (delivered_to @ [ws_id c]) ?s2"
    by (simp only: broadcast_loop.simps Let_def ins inc prod.case sum.case)
  have pool2: "pool ?s2 = map (\<lambda>(k, v). if k = ws_id c
                                   then (k, v\<lparr>message_count := message_count v + 1\<rparr>)
                                   else (k, v)) (pool s)"
    by simp
  have keys: "map fst (pool ?s2) = map fst (pool s)"
    unfolding pool2 by (rule keys_map_value)
  have p1: "distinct (map ws_id targets)"
    using Cons.prems(1) by simp
  have p2: "\<forall>c\<in>set targets. ws_id c \<in> fst ` set (pool ?s2)"
  proof -
    have "fst ` set (pool ?s2) = set (map fst (pool ?s2))"
      by (simp only: set_map)
    also have "\<dots> = fst ` set (pool s)"
      by (simp only: keys set_map)
    finally show ?thesis
      using Cons.prems(2) by simp
  qed
  have p3: "distinct (map fst (pool ?s2))"
    using Cons.prems(3) by (simp only: keys)
  have p4: "fresh_ids env (Suc i) (length targets) (m_msg_id ` set (messages ?s2))"
    using fresh' by simp
  have notin: "ws_id c \<notin> set (map ws_id targets)"
    using Cons.prems(1) by simp
  have pool_eq: "map (\<lambda>(k, v). if k \<in> set (map ws_id targets)
                                  then (k, v\<lparr>message_count := message_count v + 1\<rparr>)
                                  else (k, v)) (pool ?s2) =
                 map (\<lambda>(k, v). if k \<in> set (map ws_id (c # targets))
                                  then (k, v\<lparr>message_count := message_count v + 1\<rparr>)
                                  else (k, v)) (pool s)"
    using notin by (auto simp: case_prod_beta)
  have rows_eq: "map (\<lambda>r. if col_ws_id r \<in> set (map ws_id targets)
                            then r\<lparr>col_message_count := col_message_count r + 1\<rparr>
                            else r) (connections ?s2) =
                 map (\<lambda>r. if col_ws_id r \<in> set (map ws_id (c # targets))
                            then r\<lparr>col_message_count := col_message_count r + 1\<rparr>
                            else r) (connections s)"
    using notin by auto
  show ?case
    unfolding step Cons.IH [OF p1 p2 p3 p4] pool_eq rows_eq
    by simp
qed

lemma rows_of_broadcast_facts:
  "length (rows_of_broadcast env i seq cs mt sender targets) = length targets \<and>
   map m_recipient_id (rows_of_broadcast env i seq cs mt sender targets)
     = map Some (map ws_id targets) \<and>
   list_all (\<lambda>r. m_delivered r = 1) (rows_of_broadcast env i seq cs mt sender targets)"
  by (induction targets arbitrary: i seq) simp_all

lemma map_of_map_value:
  "map_of (map (\<lambda>(k, v). if P k then (k, g v) else (k, v)) p) k =
     map_option (\<lambda>v. if P k then g v else v) (map_of p k)"
  by (induction p) auto

lemma selected_iff:
  assumes inv: "pool_inv s" and g: "get s k = Some c"
  shows "k \<in> set (map ws_id (filter Q (get_all s))) \<longleftrightarrow> Q c"
proof -
  from pool_inv_get [OF inv g] have c: "c \<in> set (get_all s)" and k: "ws_id c = k"
    by simp_all
  have uniq: "c' = c" if "c' \<in> set (get_all s)" and "ws_id c' = k" for c'
  proof -
    from that(2) k have "ws_id c' = ws_id c"
      by (simp only:)
    from pool_inv_unique [OF inv that(1) c this] show ?thesis .
  qed
  show ?thesis
  proof
    assume "k \<in> set (map ws_id (filter Q (get_all s)))"
    then obtain c' where "c' \<in> set (get_all s)" "Q c'" "ws_id c' = k"
      by auto
    with uniq show "Q c"
      by blast
  next
    assume "Q c"
    with c k show "k \<in> set (map ws_id (filter Q (get_all s)))"
      by force
  qed
qed

lemma selected_ids:
  assumes inv: "pool_inv s"
  shows "set (map ws_id (filter Q (get_all s))) = {k. \<exists>c. get s k = Some c \<and> Q c}"
proof (intro set_eqI iffI)
  fix k
  assume "k \<in> set (map ws_id (filter Q (get_all s)))"
  then obtain c where c: "c \<in> set (get_all s)" "Q c" "ws_id c = k"
    by auto
  from pool_inv_get_all [OF inv c(1)] c(2,3) show "k \<in> {k. \<exists>c. get s k = Some c \<and> Q c}"
    by auto
next
  fix k
  assume "k \<in> {k. \<exists>c. get s k = Some c \<and> Q c}"
  then obtain c where "get s k = Some c" "Q c"
    by blast
  with selected_iff [OF inv] show "k \<in> set (map ws_id (filter Q (get_all s)))"
    by blast
qed

lemma broadcast_unfold:
  "broadcast dumps s message filter_fn mt sender env =
     broadcast_loop env 0 (content_str dumps message) mt sender
       (filter (selects filter_fn) (get_all s)) [] s"
proof (cases filter_fn)
  case None
  then show ?thesis
    by (simp add: broadcast_def selects_def)
next
  case (Some f)
  have "selects (Some f) = f"
    by (rule ext) (simp add: selects_def)
  with Some show ?thesis
    by (simp add: broadcast_def)
qed

text \<open>
  Claim C2. Let the registry satisfy its invariant and let the ids that \<^verbatim>\<open>uuid4\<close> returns
  be new. Then \<open>broadcast\<close> returns the list of the \<open>ws_id\<close>s of its targets, in registry
  order and without repetition. Without a filter these are all keys of the registry, as
  many as \<open>count\<close> says; with a filter they are, as a set, exactly the ids whose connection
  satisfies the predicate. Every targeted connection has its \<open>message_count\<close> increased by
  exactly 1 and is otherwise unchanged, every other connection is unchanged, and the
  registry keeps its keys. The table \<^verbatim>\<open>messages\<close> keeps its old rows and gains one row per
  target, in the order of the returned list, each with that target as recipient and
  \<^verbatim>\<open>delivered = 1\<close>. In the table \<^verbatim>\<open>connections\<close> the rows of the targets have their
  \<^verbatim>\<open>message_count\<close> increased by 1 and no other row changes.
\<close>

theorem broadcast_targets_and_effects:
  assumes inv: "pool_inv s"
    and fresh: "fresh_ids env 0 (length (filter (selects filter_fn) (get_all s)))
                  (m_msg_id ` set (messages s))"
  shows "let out = broadcast dumps s message filter_fn mt sender env;
             ids = map ws_id (filter (selects filter_fn) (get_all s));
             new_rows = drop (length (messages s)) (messages (snd out))
         in fst out = Inr ids \<and>
            (filter_fn = None \<longrightarrow> ids = map fst (pool s) \<and> length ids = count s) \<and>
            distinct ids \<and>
            set ids = {k. \<exists>c. get s k = Some c \<and> selects filter_fn c} \<and>
            (\<forall>k c. get s k = Some c \<longrightarrow>
               get (snd out) k =
                 Some (if selects filter_fn c then c\<lparr>message_count := message_count c + 1\<rparr>
                       else c)) \<and>
            map fst (pool (snd out)) = map fst (pool s) \<and>
            take (length (messages s)) (messages (snd out)) = messages s \<and>
            map m_recipient_id new_rows = map Some ids \<and>
            list_all (\<lambda>r. m_delivered r = 1) new_rows \<and>
            connections (snd out) =
              map (\<lambda>r. if col_ws_id r \<in> set ids
                        then r\<lparr>col_message_count := col_message_count r + 1\<rparr> else r)
                (connections s)"
proof -
  let ?targets = "filter (selects filter_fn) (get_all s)"
  let ?ids = "map ws_id ?targets"
  let ?rows = "rows_of_broadcast env 0 (messages_seq s) (content_str dumps message) mt sender ?targets"
  let ?s' = "s\<lparr>pool := map (\<lambda>(k, v). if k \<in> set ?ids
                                  then (k, v\<lparr>message_count := message_count v + 1\<rparr>)
                                  else (k, v)) (pool s),
              connections := map (\<lambda>r. if col_ws_id r \<in> set ?ids
                                       then r\<lparr>col_message_count := col_message_count r + 1\<rparr>
                                       else r) (connections s),
              messages := messages s @ ?rows,
              messages_seq := messages_seq s + int (length ?targets)\<rparr>"
  from inv have dk: "distinct (map fst (pool s))"
    by (simp add: pool_inv_def)
  have all_ids: "map ws_id (get_all s) = map fst (pool s)"
    by (rule pool_inv_ids [OF inv])
  with dk have "distinct (map ws_id (get_all s))"
    by simp
  then have d: "distinct ?ids"
    by (rule distinct_map_filter)
  have present: "\<forall>c\<in>set ?targets. ws_id c \<in> fst ` set (pool s)"
  proof
    fix c assume "c \<in> set ?targets"
    then have "ws_id c \<in> set (map ws_id (get_all s))"
      by auto
    then show "ws_id c \<in> fst ` set (pool s)"
      by (simp only: all_ids set_map)
  qed
  have out: "broadcast dumps s message filter_fn mt sender env = (Inr ?ids, ?s')"
    unfolding broadcast_unfold
    using broadcast_loop_result [OF d present dk fresh, of "content_str dumps message" mt sender "[]"]
    by simp
  have nofilter: "?ids = map fst (pool s) \<and> length ?ids = count s" if "filter_fn = None"
    using that all_ids by (simp add: selects_def count_def get_all_def)
  have each: "get ?s' k = Some (if selects filter_fn c
                                then c\<lparr>message_count := message_count c + 1\<rparr> else c)"
    if g: "get s k = Some c" for k c
  proof -
    from g have "map_of (pool s) k = Some c"
      by (simp add: get_def)
    then have "get ?s' k = Some (if k \<in> set ?ids
                                 then c\<lparr>message_count := message_count c + 1\<rparr> else c)"
      by (simp add: get_def map_of_map_value)
    with selected_iff [OF inv g, of "selects filter_fn"] show ?thesis
      by simp
  qed
  have "pool ?s' = map (\<lambda>(k, v). if k \<in> set ?ids
                                  then (k, v\<lparr>message_count := message_count v + 1\<rparr>)
                                  else (k, v)) (pool s)"
    by simp
  then have keys: "map fst (pool ?s') = map fst (pool s)"
    by (simp only: keys_map_value)
  from rows_of_broadcast_facts [of env 0 "messages_seq s" "content_str dumps message" mt sender ?targets]
  have rows: "map m_recipient_id ?rows = map Some ?ids" "list_all (\<lambda>r. m_delivered r = 1) ?rows"
    by simp_all
  have f1: "filter_fn = None \<longrightarrow> ?ids = map fst (pool s) \<and> length ?ids = count s"
    using nofilter by blast
  have f2: "set ?ids = {k. \<exists>c. get s k = Some c \<and> selects filter_fn c}"
    by (rule selected_ids [OF inv])
  have f3: "\<forall>k c. get s k = Some c \<longrightarrow>
              get ?s' k = Some (if selects filter_fn c
                                then c\<lparr>message_count := message_count c + 1\<rparr> else c)"
    using each by blast
  have f4: "take (length (messages s)) (messages ?s') = messages s"
    by simp
  have f5: "map m_recipient_id (drop (length (messages s)) (messages ?s')) = map Some ?ids"
    using rows(1) by simp
  have f6: "list_all (\<lambda>r. m_delivered r = 1) (drop (length (messages s)) (messages ?s'))"
    using rows(2) by simp
  have f7: "connections ?s' =
              map (\<lambda>r. if col_ws_id r \<in> set ?ids
                        then r\<lparr>col_message_count := col_message_count r + 1\<rparr> else r)
                (connections s)"
    by simp
  show ?thesis
    unfolding Let_def out fst_conv snd_conv
    using f1 d f2 f3 keys f4 f5 f6 f7 by blast
qed

lemma filter_pool_eq:
  "filter_pool =
     \<lparr>connections =
        [\<lparr>col_id = 1, col_ws_id = ''ws-f1'', col_agent = ''alice'', col_metadata = ''{}'',
          col_connected_at = ''2026-01-01T00:00:01'', col_last_heartbeat = ''2026-01-01T00:00:01'',
          col_status = ''active'', col_message_count = 0, col_disconnected_at = None\<rparr>,
         \<lparr>col_id = 2, col_ws_id = ''ws-f2'', col_agent = ''alice'', col_metadata = ''{}'',
          col_connected_at = ''2026-01-01T00:00:02'', col_last_heartbeat = ''2026-01-01T00:00:02'',
          col_status = ''active'', col_message_count = 0, col_disconnected_at = None\<rparr>,
         \<lparr>col_id = 3, col_ws_id = ''ws-f3'', col_agent = ''octavia'', col_metadata = ''{}'',
          col_connected_at = ''2026-01-01T00:00:03'', col_last_heartbeat = ''2026-01-01T00:00:03'',
          col_status = ''active'', col_message_count = 0, col_disconnected_at = None\<rparr>],
      connections_seq = 3, messages = [], messages_seq = 0,
      heartbeat_log = [], heartbeat_log_seq = 0,
      pool =
        [(''ws-f1'',
          \<lparr>ws_id = ''ws-f1'', agent = ''alice'', metadata = [],
           connected_at = ''2026-01-01T00:00:01'', last_heartbeat = ''2026-01-01T00:00:01'',
           status = ''active'', message_count = 0, db_id = Some 1\<rparr>),
         (''ws-f2'',
          \<lparr>ws_id = ''ws-f2'', agent = ''alice'', metadata = [],
           connected_at = ''2026-01-01T00:00:02'', last_heartbeat = ''2026-01-01T00:00:02'',
           status = ''active'', message_count = 0, db_id = Some 2\<rparr>),
         (''ws-f3'',
          \<lparr>ws_id = ''ws-f3'', agent = ''octavia'', metadata = [],
           connected_at = ''2026-01-01T00:00:03'', last_heartbeat = ''2026-01-01T00:00:03'',
           status = ''active'', message_count = 0, db_id = Some 3\<rparr>)]\<rparr>"
  by (simp add: filter_pool_def add_connection_result test_pool_eq dumps_stub_def)

theorem broadcast_targets_and_effects_witness:
  "fst (broadcast dumps_stub filter_pool (JStr ''hello'') (Some (\<lambda>c. agent c = ''alice''))
          ''broadcast'' None env_stub) = Inr [''ws-f1'', ''ws-f2''] \<and>
   map m_recipient_id
     (messages (snd (broadcast dumps_stub filter_pool (JStr ''hello'')
                       (Some (\<lambda>c. agent c = ''alice'')) ''broadcast'' None env_stub)))
     = [Some ''ws-f1'', Some ''ws-f2''] \<and>
   get (snd (broadcast dumps_stub filter_pool (JStr ''hello'')
               (Some (\<lambda>c. agent c = ''alice'')) ''broadcast'' None env_stub)) ''ws-f1''
     = Some \<lparr>ws_id = ''ws-f1'', agent = ''alice'', metadata = [],
              connected_at = ''2026-01-01T00:00:01'', last_heartbeat = ''2026-01-01T00:00:01'',
              status = ''active'', message_count = 1, db_id = Some 1\<rparr> \<and>
   get (snd (broadcast dumps_stub filter_pool (JStr ''hello'')
               (Some (\<lambda>c. agent c = ''alice'')) ''broadcast'' None env_stub)) ''ws-f3''
     = Some \<lparr>ws_id = ''ws-f3'', agent = ''octavia'', metadata = [],
              connected_at = ''2026-01-01T00:00:03'', last_heartbeat = ''2026-01-01T00:00:03'',
              status = ''active'', message_count = 0, db_id = Some 3\<rparr>"
proof -
  let ?f = "Some (\<lambda>c. agent c = ''alice'')"
  let ?out = "broadcast dumps_stub filter_pool (JStr ''hello'') ?f ''broadcast'' None env_stub"
  let ?c1 = "\<lparr>ws_id = ''ws-f1'', agent = ''alice'', metadata = [],
              connected_at = ''2026-01-01T00:00:01'', last_heartbeat = ''2026-01-01T00:00:01'',
              status = ''active'', message_count = 0, db_id = Some 1\<rparr>"
  let ?c3 = "\<lparr>ws_id = ''ws-f3'', agent = ''octavia'', metadata = [],
              connected_at = ''2026-01-01T00:00:03'', last_heartbeat = ''2026-01-01T00:00:03'',
              status = ''active'', message_count = 0, db_id = Some 3\<rparr>"
  have ids: "map ws_id (filter (selects ?f) (get_all filter_pool)) = [''ws-f1'', ''ws-f2'']"
    by (simp add: selects_def get_all_def filter_pool_eq)
  have inv: "pool_inv filter_pool"
    by (simp add: pool_inv_def filter_pool_eq)
  have fresh: "fresh_ids env_stub 0 (length (filter (selects ?f) (get_all filter_pool)))
                 (m_msg_id ` set (messages filter_pool))"
    by (simp add: selects_def get_all_def filter_pool_eq env_stub_def)
  have g1: "get filter_pool ''ws-f1'' = Some ?c1" and g3: "get filter_pool ''ws-f3'' = Some ?c3"
    by (simp_all add: get_def filter_pool_eq)
  from broadcast_targets_and_effects [OF inv fresh, of dumps_stub "JStr ''hello''" "''broadcast''" None]
  have r: "fst ?out = Inr [''ws-f1'', ''ws-f2'']"
    and g: "\<forall>k c. get filter_pool k = Some c \<longrightarrow>
              get (snd ?out) k =
                Some (if selects ?f c then c\<lparr>message_count := message_count c + 1\<rparr> else c)"
    and new: "map m_recipient_id (drop (length (messages filter_pool)) (messages (snd ?out)))
                = map Some [''ws-f1'', ''ws-f2'']"
    unfolding Let_def ids by blast+
  from new have m: "map m_recipient_id (messages (snd ?out)) = [Some ''ws-f1'', Some ''ws-f2'']"
    by (simp add: filter_pool_eq)
  from g g1 have "get (snd ?out) ''ws-f1'' =
      Some (if selects ?f ?c1 then ?c1\<lparr>message_count := message_count ?c1 + 1\<rparr> else ?c1)"
    by blast
  moreover from g g3 have "get (snd ?out) ''ws-f3'' =
      Some (if selects ?f ?c3 then ?c3\<lparr>message_count := message_count ?c3 + 1\<rparr> else ?c3)"
    by blast
  ultimately show ?thesis
    using r m by (simp add: selects_def)
qed

section \<open>C8: message history\<close>




lemma distinct_order_by [simp]: "distinct (order_by_sent_at_desc rows) = distinct rows"
  by (simp add: order_by_sent_at_desc_def)






lemma messages_increment [simp]: "messages (increment_message_count s ws) = messages s"
  by (simp add: increment_message_count_def)

lemma messages_seq_increment [simp]:
  "messages_seq (increment_message_count s ws) = messages_seq s"
  by (simp add: increment_message_count_def)









section \<open>The registry invariant holds in every reachable state\<close>

text \<open>
  The invariant holds for a registry as \<^verbatim>\<open>ConnectionPool.__init__\<close> builds it from
  any database, and every method and every function of the module keeps it, also when it
  ends in an exception.
\<close>

lemma pool_inv_entries: "pool_inv s \<longleftrightarrow> entries_ok (pool s)"
  by (simp add: pool_inv_def entries_ok_def)

lemma entries_update:
  assumes "entries_ok p" and "ws_id c = k"
  shows "entries_ok (AList.update k c p)"
proof -
  from assms have "list_all (\<lambda>(k, c). ws_id c = k) (AList.update k c p)"
    unfolding entries_ok_def by (induction p) auto
  with assms(1) show ?thesis
    by (simp add: entries_ok_def AList.distinct_update)
qed

lemma entries_delete:
  assumes "entries_ok p"
  shows "entries_ok (AList.delete k p)"
proof -
  from assms have "distinct (map fst (AList.delete k p))"
    by (simp add: entries_ok_def AList.distinct_delete)
  moreover from assms have "list_all (\<lambda>(k, c). ws_id c = k) (AList.delete k p)"
    by (simp add: entries_ok_def AList.delete_eq list_all_iff)
  ultimately show ?thesis
    by (simp add: entries_ok_def)
qed

lemma entries_modify:
  assumes "entries_ok p" and "\<And>c. ws_id (f c) = ws_id c"
  shows "entries_ok (modify k f p)"
proof (cases "map_of p k")
  case None
  with assms show ?thesis
    by (simp add: modify_def)
next
  case (Some c)
  then have "(k, c) \<in> set p"
    by (rule map_of_SomeD)
  with assms(1) have "ws_id c = k"
    by (auto simp: entries_ok_def list_all_iff)
  with assms(2) have "ws_id (f c) = k"
    by simp
  from entries_update [OF assms(1) this] Some show ?thesis
    by (simp add: modify_def)
qed

lemma entries_load:
  "entries_ok p \<Longrightarrow>
   entries_ok (foldl (\<lambda>p row. let c = row_to_connection loads row
                               in AList.update (ws_id c) c p) p rows)"
proof (induction rows arbitrary: p)
  case Nil
  then show ?case by simp
next
  case (Cons row rows)
  from entries_update [OF Cons.prems refl, of "row_to_connection loads row"]
  have "entries_ok (AList.update (ws_id (row_to_connection loads row))
                      (row_to_connection loads row) p)" .
  from Cons.IH [OF this] show ?case
    by (simp add: Let_def)
qed

lemma pool_inv_init: "pool_inv (init loads conn)"
proof -
  have "entries_ok []"
    by (simp add: entries_ok_def)
  from entries_load [OF this] show ?thesis
    by (simp add: pool_inv_entries init_def load_active_def db.extend_def)
qed

lemma pool_inv_add: "pool_inv s \<Longrightarrow> pool_inv (snd (add dumps s c))"
  using entries_update [of "pool s" "c\<lparr>db_id := Some (connections_seq s + 1)\<rparr>" "ws_id c"]
  by (simp add: pool_inv_entries add_result)

lemma pool_inv_add_connection:
  "pool_inv s \<Longrightarrow> pool_inv (snd (add_connection dumps s ws ag md t1 t2))"
  by (simp add: add_connection_def pool_inv_add)

lemma pool_inv_remove: "pool_inv s \<Longrightarrow> pool_inv (snd (remove s ws t))"
  using entries_delete [of "pool s" ws]
  by (simp add: pool_inv_entries remove_def)

lemma pool_inv_update_heartbeat:
  "pool_inv s \<Longrightarrow> pool_inv (snd (update_heartbeat s ws latency_ms ts t))"
  using entries_modify [of "pool s" "\<lambda>c. c\<lparr>last_heartbeat := ts\<rparr>" ws]
  by (simp add: pool_inv_entries update_heartbeat_def)

lemma pool_inv_increment_message_count:
  "pool_inv s \<Longrightarrow> pool_inv (increment_message_count s ws)"
  using entries_modify [of "pool s" "\<lambda>c. c\<lparr>message_count := message_count c + 1\<rparr>" ws]
  by (simp add: pool_inv_entries increment_message_count_def)

lemma pool_inv_call: "pool_inv s \<Longrightarrow> pool_inv (call dumps s x)"
  by (cases x)
     (simp_all add: pool_inv_add pool_inv_remove pool_inv_update_heartbeat
        pool_inv_increment_message_count)

lemma pool_insert_message [simp]: "pool (snd (insert_message s msg t)) = pool s"
  by (simp add: insert_message_def)

lemma pool_inv_insert_message: "pool_inv s \<Longrightarrow> pool_inv (snd (insert_message s msg t))"
  by (simp add: pool_inv_def)

lemma pool_inv_send_message:
  "pool_inv s \<Longrightarrow> pool_inv (snd (send_message dumps s ws x mt sender env))"
  by (auto simp: send_message_def Let_def split: option.splits prod.splits sum.splits
           intro!: pool_inv_increment_message_count
           dest: pool_inv_insert_message [where msg = "\<lparr>content = content_str dumps x, sender_id = sender,
                       recipient_id = Some ws, msg_type = mt, msg_id = uuid4 env,
                       sent_at = utcnow_iso env, db_id_m = None\<rparr>" and t = "sql_now env"])

lemma pool_inv_broadcast_loop:
  "pool_inv s \<Longrightarrow> pool_inv (snd (broadcast_loop env i cs mt sender targets delivered_to s))"
proof (induction targets arbitrary: i delivered_to s)
  case Nil
  then show ?case by simp
next
  case (Cons c targets)
  let ?msg = "\<lparr>content = cs, sender_id = sender, recipient_id = Some (ws_id c),
                msg_type = mt, msg_id = uuid4 (env i), sent_at = utcnow_iso (env i),
                db_id_m = None\<rparr>"
  obtain res s' where ins: "insert_message s ?msg (sql_now (env i)) = (res, s')"
    by (cases "insert_message s ?msg (sql_now (env i))")
  with pool_inv_insert_message [OF Cons.prems, of ?msg "sql_now (env i)"] have s': "pool_inv s'"
    by simp
  show ?case
  proof (cases res)
    case (Inl e)
    with ins s' show ?thesis
      by (simp add: Let_def)
  next
    case (Inr u)
    from pool_inv_increment_message_count [OF s'] have
      "pool_inv (increment_message_count s' (ws_id c))" .
    from Cons.IH [OF this] ins Inr show ?thesis
      by (simp add: Let_def)
  qed
qed

lemma pool_inv_broadcast:
  "pool_inv s \<Longrightarrow> pool_inv (snd (broadcast dumps s message filter_fn mt sender env))"
  by (simp add: broadcast_unfold pool_inv_broadcast_loop)

lemma pool_inv_heartbeat_loop:
  "pool_inv s \<Longrightarrow> pool_inv (snd (heartbeat_loop P now cutoff clock i cs act tout s))"
proof (induction cs arbitrary: i act tout s)
  case Nil
  then show ?case by simp
next
  case (Cons c cs)
  show ?case
  proof (cases "comparable P now c")
    case False
    from heartbeat_loop_raises [OF False] Cons.prems show ?thesis
      by (metis snd_conv)
  next
    case True
    show ?thesis
    proof (cases "stale P now cutoff c")
      case st: True
      from pool_inv_remove [OF Cons.prems] have "pool_inv (snd (remove s (ws_id c) (clock i)))" .
      from Cons.IH [OF this] show ?thesis
        by (simp only: heartbeat_loop_stale [OF True st])
    next
      case st: False
      from Cons.IH [OF Cons.prems] show ?thesis
        by (simp only: heartbeat_loop_fresh [OF True st])
    qed
  qed
qed

lemma pool_inv_heartbeat_check:
  "pool_inv s \<Longrightarrow> pool_inv (snd (heartbeat_check P s timeout now clock))"
  by (simp add: heartbeat_check_def pool_inv_heartbeat_loop split: sum.splits)

end
